theory Spec2Isabelle
  imports Main "HOL-Library.Word"
begin

section \<open>An embedding of the ip-worker request core\<close>

text \<open>
  The worker (\<^verbatim>\<open>src/index.ts\<close>) answers \<^verbatim>\<open>GET /\<close> with facts about the
  connecting address. Its logic is three functions: \<^verbatim>\<open>isIPv4\<close> and
  \<^verbatim>\<open>processIPAddress\<close> classify the address string, \<^verbatim>\<open>getRequestedFields\<close>
  projects the merged attribute object onto the requested field names, and the root
  handler builds that attribute object. Each is translated below as it is written, with
  the behaviour of the JavaScript built-ins it calls spelled out.
\<close>

subsection \<open>Strings\<close>

text \<open>
  A JavaScript string is a sequence of 16-bit code units. \<open>js\<close> writes an ASCII
  literal of the source as such a sequence.
\<close>

type_synonym jschar = "16 word"
type_synonym jsstring = "jschar list"

definition js :: "string \<Rightarrow> jsstring" where
  "js s = map of_char s"

subsection \<open>The regular expression of \<^verbatim>\<open>isIPv4\<close>\<close>

text \<open>
  The pattern is \<^verbatim>\<open>/^(\d{1,3}\.){3}\d{1,3}$/\<close>, written without flags. Without the
  \<^verbatim>\<open>u\<close> flag \<^verbatim>\<open>\d\<close> is the class of the ten ASCII digits; without the
  \<^verbatim>\<open>m\<close> flag \<^verbatim>\<open>^\<close> and \<^verbatim>\<open>$\<close> only match at the two ends of the input.
  The constructs the pattern uses are a datatype; \<open>rx_match r s\<close> is the backtracking
  matcher: the list, in the order a greedy engine tries them, of what is left of \<open>s\<close>
  after each way of matching \<open>r\<close> at its start. \<^verbatim>\<open>test\<close> on the anchored pattern
  succeeds when one of these ways consumes the whole input.
\<close>

definition isDigit :: "jschar \<Rightarrow> bool" where
  "isDigit c \<longleftrightarrow> 0x30 \<le> c \<and> c \<le> 0x39"

definition dot :: jschar where
  "dot = 0x2E"

datatype regex = Digit | Chr jschar | Seq regex regex | Repeat nat nat regex

fun rx_repeat :: "(jsstring \<Rightarrow> jsstring list) \<Rightarrow> nat \<Rightarrow> nat \<Rightarrow> jsstring \<Rightarrow> jsstring list" where
  "rx_repeat f 0 0 s = [s]"
| "rx_repeat f 0 (Suc n) s = concat (map (rx_repeat f 0 n) (f s)) @ [s]"
| "rx_repeat f (Suc m) 0 s = []"
| "rx_repeat f (Suc m) (Suc n) s = concat (map (rx_repeat f m n) (f s))"

primrec rx_match :: "regex \<Rightarrow> jsstring \<Rightarrow> jsstring list" where
  "rx_match Digit s = (case s of [] \<Rightarrow> [] | c # t \<Rightarrow> if isDigit c then [t] else [])"
| "rx_match (Chr a) s = (case s of [] \<Rightarrow> [] | c # t \<Rightarrow> if c = a then [t] else [])"
| "rx_match (Seq r1 r2) s = concat (map (rx_match r2) (rx_match r1 s))"
| "rx_match (Repeat m n r) s = rx_repeat (rx_match r) m n s"

definition regex_test :: "regex \<Rightarrow> jsstring \<Rightarrow> bool" where
  "regex_test r s \<longleftrightarrow> [] \<in> set (rx_match r s)"

definition ipv4Pattern :: regex where
  "ipv4Pattern = Seq (Repeat 3 3 (Seq (Repeat 1 3 Digit) (Chr dot))) (Repeat 1 3 Digit)"

definition isIPv4 :: "jsstring \<Rightarrow> bool" where
  "isIPv4 addr = regex_test ipv4Pattern addr"

subsection \<open>\<^verbatim>\<open>processIPAddress\<close>\<close>

text \<open>
  The function returns one of two object literals with the same four properties;
  \<^verbatim>\<open>ipv4\<close> and \<^verbatim>\<open>ipv6\<close> hold a string or \<^verbatim>\<open>null\<close> (\<open>None\<close>).
\<close>

record ipData =
  ip :: jsstring
  ipv4 :: "jsstring option"
  ipv6 :: "jsstring option"
  ipVersion :: int

definition processIPAddress :: "jsstring \<Rightarrow> ipData" where
  "processIPAddress addr =
     (if isIPv4 addr
      then \<lparr>ip = addr, ipv4 = Some addr, ipv6 = None, ipVersion = 4\<rparr>
      else \<lparr>ip = addr, ipv4 = None, ipv6 = Some addr, ipVersion = 6\<rparr>)"

subsection \<open>\<^verbatim>\<open>String.prototype.split\<close> with a one-character separator\<close>

text \<open>
  \<open>split_on c s\<close> scans for the next separator, emits the piece before it and goes on
  after it; the last piece is what follows the last separator, so a string with \<open>n\<close>
  separators gives \<open>n + 1\<close> pieces, empty ones included.
\<close>

function split_on :: "'a \<Rightarrow> 'a list \<Rightarrow> 'a list list" where
  "split_on c s =
     (case dropWhile (\<lambda>x. x \<noteq> c) s of
        [] \<Rightarrow> [s]
      | _ # rest \<Rightarrow> takeWhile (\<lambda>x. x \<noteq> c) s # split_on c rest)"
  by pat_completeness auto
termination
proof (relation "measure (\<lambda>(c, s). length s)")
  show "wf (measure (\<lambda>(c, s). length s))" by simp
next
  fix c :: 'a and s x21 x22
  assume "dropWhile (\<lambda>x. x \<noteq> c) s = x21 # x22"
  then have "length (dropWhile (\<lambda>x. x \<noteq> c) s) = Suc (length x22)" by simp
  moreover have "length (dropWhile (\<lambda>x. x \<noteq> c) s) \<le> length s" by (rule length_dropWhile_le)
  ultimately show "((c, x22), (c, s)) \<in> measure (\<lambda>(c, s). length s)" by simp
qed

declare split_on.simps [simp del]

text \<open>The inverse of splitting: the pieces put back together around the separator.\<close>

fun join :: "'a \<Rightarrow> 'a list list \<Rightarrow> 'a list" where
  "join c [] = []"
| "join c [p] = p"
| "join c (p # q # ps) = p @ c # join c (q # ps)"

subsection \<open>The shape the specification gives an IPv4 literal\<close>

text \<open>
  In the specification's words: exactly four dot-separated groups of one to three
  digits each, digits only, with no check of the range 0 to 255.
\<close>

definition digit_group :: "jsstring \<Rightarrow> bool" where
  "digit_group g \<longleftrightarrow> 1 \<le> length g \<and> length g \<le> 3 \<and> list_all isDigit g"

definition ipv4_shaped :: "jsstring \<Rightarrow> bool" where
  "ipv4_shaped s \<longleftrightarrow>
     (let groups = split_on dot s in length groups = 4 \<and> list_all digit_group groups)"

text \<open>
  The language of a pattern, to say what the matcher computes: the strings a pattern
  matches entirely.
\<close>

primrec lang :: "regex \<Rightarrow> jsstring set" where
  "lang Digit = {[c] | c. isDigit c}"
| "lang (Chr a) = {[a]}"
| "lang (Seq r1 r2) = {u @ v | u v. u \<in> lang r1 \<and> v \<in> lang r2}"
| "lang (Repeat m n r) = {concat us | us. m \<le> length us \<and> length us \<le> n \<and> set us \<subseteq> lang r}"

definition reps :: "jsstring set \<Rightarrow> nat \<Rightarrow> nat \<Rightarrow> jsstring set" where
  "reps L m n = {concat us | us. m \<le> length us \<and> length us \<le> n \<and> set us \<subseteq> L}"

subsection \<open>Values and objects\<close>

text \<open>
  The values of the attribute object are those of the specification's data model: a
  string, a number, a boolean or \<^verbatim>\<open>null\<close>; \<^verbatim>\<open>undefined\<close> is what reading a
  missing property gives. The functions below only copy values, so a number is carried
  as an integer.

  An object is its own data properties and its prototype. The attribute object and the
  result are created by object literals, so their prototype is \<^verbatim>\<open>Object.prototype\<close>
  at first; the attribute object is never assigned to and is given by its own properties
  alone.
\<close>

datatype jsvalue = JSUndefined | JSNull | JSBoolean bool | JSNumber int | JSString jsstring

type_synonym props = "jsstring \<rightharpoonup> jsvalue"

datatype prototype = ObjectPrototype | NullPrototype

record jsobject =
  own :: props
  proto :: prototype

datatype js_error = TypeError

text \<open>
  \<^verbatim>\<open>availableData.ip\<close> and the eight other reads of the default branch: the own
  property if there is one, else the lookup goes on in \<^verbatim>\<open>Object.prototype\<close>, which
  has none of the nine names, and the read gives \<^verbatim>\<open>undefined\<close>. In the loop the same
  read \<^verbatim>\<open>availableData[field]\<close> only happens for an own property.
\<close>

definition get_field :: "props \<Rightarrow> jsstring \<Rightarrow> jsvalue" where
  "get_field obj k = (case obj k of None \<Rightarrow> JSUndefined | Some v \<Rightarrow> v)"

text \<open>
  \<^verbatim>\<open>availableData.hasOwnProperty(field)\<close> first reads the property
  \<^verbatim>\<open>hasOwnProperty\<close> of the attribute object and then calls what it read. When the
  object has no own property of that name the read finds the built-in of
  \<^verbatim>\<open>Object.prototype\<close>, which tells whether \<^verbatim>\<open>field\<close> is an own property. When it
  has one, that property shadows the built-in; its value is a primitive, and calling a
  primitive raises a \<^verbatim>\<open>TypeError\<close>.
\<close>

definition hasOwnProperty :: "props \<Rightarrow> jsstring \<Rightarrow> js_error + bool" where
  "hasOwnProperty obj field =
     (case obj (js ''hasOwnProperty'') of
        None \<Rightarrow> Inr (obj field \<noteq> None)
      | Some v \<Rightarrow> Inl TypeError)"

text \<open>
  \<^verbatim>\<open>result[field] = v\<close> is an ordinary property assignment. An own property is
  overwritten. Otherwise the prototype chain is searched: every property of
  \<^verbatim>\<open>Object.prototype\<close> is a writable data property, for which the assignment creates
  an own property of \<^verbatim>\<open>result\<close>, but for the accessor \<^verbatim>\<open>__proto__\<close>, whose setter is
  called instead: it makes \<^verbatim>\<open>null\<close> the prototype of \<^verbatim>\<open>result\<close> when \<^verbatim>\<open>v\<close> is
  \<^verbatim>\<open>null\<close> and does nothing for any other primitive. An object without prototype
  gets an own property whatever the name.
\<close>

definition set_property :: "jsobject \<Rightarrow> jsstring \<Rightarrow> jsvalue \<Rightarrow> jsobject" where
  "set_property obj k v =
     (if own obj k = None \<and> proto obj = ObjectPrototype \<and> k = js ''__proto__''
      then (if v = JSNull then obj\<lparr>proto := NullPrototype\<rparr> else obj)
      else obj\<lparr>own := (own obj)(k \<mapsto> v)\<rparr>)"

subsection \<open>\<^verbatim>\<open>String.prototype.trim\<close>\<close>

text \<open>
  \<^verbatim>\<open>trim\<close> removes the white space and line terminator code points from both ends:
  TAB, LF, VT, FF, CR, SPACE, NO-BREAK SPACE, the other space separators (U+1680,
  U+2000 to U+200A, U+202F, U+205F, U+3000), LINE and PARAGRAPH SEPARATOR, and U+FEFF.
\<close>

definition isWhiteSpace :: "jschar \<Rightarrow> bool" where
  "isWhiteSpace c \<longleftrightarrow>
     c \<in> set [0x0009, 0x000A, 0x000B, 0x000C, 0x000D, 0x0020, 0x00A0, 0x1680,
              0x2028, 0x2029, 0x202F, 0x205F, 0x3000, 0xFEFF]
     \<or> (0x2000 \<le> c \<and> c \<le> 0x200A)"

definition trim :: "jsstring \<Rightarrow> jsstring" where
  "trim s = rev (dropWhile isWhiteSpace (rev (dropWhile isWhiteSpace s)))"

subsection \<open>\<^verbatim>\<open>getRequestedFields\<close>\<close>

definition comma :: jschar where
  "comma = 0x2C"

text \<open>The parse of the \<^verbatim>\<open>fields\<close> parameter: split, trim each piece, keep the non-empty.\<close>

definition requestedFields :: "jsstring \<Rightarrow> jsstring list" where
  "requestedFields fieldsParam =
     filter (\<lambda>field. length field > 0) (map (\<lambda>field. trim field) (split_on comma fieldsParam))"

text \<open>
  The \<^verbatim>\<open>for ... of\<close> loop over the requested names, with the result built so far as
  its state. An exception leaves the loop and the function.
\<close>

fun copy_fields :: "props \<Rightarrow> jsstring list \<Rightarrow> jsobject \<Rightarrow> js_error + jsobject" where
  "copy_fields availableData [] result = Inr result"
| "copy_fields availableData (field # rest) result =
     (case hasOwnProperty availableData field of
        Inl e \<Rightarrow> Inl e
      | Inr present \<Rightarrow>
          if present
          then copy_fields availableData rest
                 (set_property result field (get_field availableData field))
          else copy_fields availableData rest result)"

text \<open>
  \<^verbatim>\<open>fieldsParam\<close> is a string or \<^verbatim>\<open>undefined\<close> (\<open>None\<close>); \<^verbatim>\<open>!fieldsParam\<close> holds
  for \<^verbatim>\<open>undefined\<close> and for the empty string. The default branch returns an object
  literal of nine properties.
\<close>

definition defaultFields :: "props \<Rightarrow> jsobject" where
  "defaultFields availableData =
     \<lparr>own = map_of
        [(js ''ip'', get_field availableData (js ''ip'')),
         (js ''ipv4'', get_field availableData (js ''ipv4'')),
         (js ''ipv6'', get_field availableData (js ''ipv6'')),
         (js ''ipVersion'', get_field availableData (js ''ipVersion'')),
         (js ''country'', get_field availableData (js ''country'')),
         (js ''region'', get_field availableData (js ''region'')),
         (js ''asn'', get_field availableData (js ''asn'')),
         (js ''asOrganization'', get_field availableData (js ''asOrganization'')),
         (js ''userAgent'', get_field availableData (js ''userAgent''))],
      proto = ObjectPrototype\<rparr>"

definition getRequestedFields :: "jsstring option \<Rightarrow> props \<Rightarrow> js_error + jsobject" where
  "getRequestedFields fieldsParam availableData =
     (case fieldsParam of
        None \<Rightarrow> Inr (defaultFields availableData)
      | Some param \<Rightarrow>
          if param = [] then Inr (defaultFields availableData)
          else copy_fields availableData (requestedFields param)
                 \<lparr>own = Map.empty, proto = ObjectPrototype\<rparr>)"

subsection \<open>The attribute object of the root handler\<close>

text \<open>
  A request header is a string or missing, and \<^verbatim>\<open>h || d\<close> is \<^verbatim>\<open>d\<close> for a missing
  header and for an empty one. \<^verbatim>\<open>c.req.raw.cf\<close> is an object or missing. The spread
  \<^verbatim>\<open>{...ipData, ...cfData, userAgent: userAgent}\<close> defines the own properties of its
  operands from left to right, a later definition replacing an earlier one of the same
  name.
\<close>

definition ipData_props :: "ipData \<Rightarrow> props" where
  "ipData_props d =
     map_of
       [(js ''ip'', JSString (ip d)),
        (js ''ipv4'', case ipv4 d of None \<Rightarrow> JSNull | Some s \<Rightarrow> JSString s),
        (js ''ipv6'', case ipv6 d of None \<Rightarrow> JSNull | Some s \<Rightarrow> JSString s),
        (js ''ipVersion'', JSNumber (ipVersion d))]"

definition availableData :: "jsstring option \<Rightarrow> props option \<Rightarrow> jsstring option \<Rightarrow> props" where
  "availableData ipHeader cf userAgentHeader =
     (let addr = (case ipHeader of None \<Rightarrow> js ''no IP''
                  | Some h \<Rightarrow> if h = [] then js ''no IP'' else h);
          ipData = processIPAddress addr;
          cfData = (case cf of None \<Rightarrow> Map.empty | Some d \<Rightarrow> d);
          userAgent = (case userAgentHeader of None \<Rightarrow> JSNull
                       | Some h \<Rightarrow> if h = [] then JSNull else JSString h)
      in (ipData_props ipData ++ cfData)(js ''userAgent'' \<mapsto> userAgent))"

subsection \<open>The field catalog\<close>

text \<open>
  The names under \<^verbatim>\<open>availableFields\<close> in the object \<^verbatim>\<open>getDocumentation\<close> returns,
  in the order of the source.
\<close>

definition availableFields :: "jsstring list" where
  "availableFields =
     [js ''ip'', js ''ipv4'', js ''ipv6'', js ''ipVersion'', js ''asn'', js ''asOrganization'',
      js ''city'', js ''continent'', js ''country'', js ''region'', js ''regionCode'',
      js ''timezone'', js ''postalCode'', js ''latitude'', js ''longitude'', js ''metroCode'',
      js ''colo'', js ''isEU'', js ''userAgent'']"

section \<open>The matcher computes the language of its pattern\<close>

lemma reps_0_0: "reps L 0 0 = {[]}"
  by (auto simp: reps_def)

lemma reps_Suc_0: "reps L (Suc m) 0 = {}"
  by (auto simp: reps_def)

lemma reps_0_Suc: "reps L 0 (Suc n) = insert [] {u @ v | u v. u \<in> L \<and> v \<in> reps L 0 n}"
proof (rule set_eqI, rule iffI)
  fix w assume "w \<in> reps L 0 (Suc n)"
  then obtain us where us: "w = concat us" "length us \<le> Suc n" "set us \<subseteq> L"
    by (auto simp: reps_def)
  show "w \<in> insert [] {u @ v | u v. u \<in> L \<and> v \<in> reps L 0 n}"
  proof (cases us)
    case Nil
    with us show ?thesis by simp
  next
    case (Cons u us')
    with us have "u \<in> L" "concat us' \<in> reps L 0 n" "w = u @ concat us'"
      by (auto simp: reps_def)
    then show ?thesis by blast
  qed
next
  fix w assume "w \<in> insert [] {u @ v | u v. u \<in> L \<and> v \<in> reps L 0 n}"
  then consider "w = []" | u us where "w = u @ concat us" "u \<in> L" "length us \<le> n" "set us \<subseteq> L"
    by (auto simp: reps_def)
  then show "w \<in> reps L 0 (Suc n)"
  proof cases
    case 1
    then have "w = concat []" by simp
    then show ?thesis unfolding reps_def by (intro CollectI exI[of _ "[]"]) simp
  next
    case 2
    then have "w = concat (u # us)" "length (u # us) \<le> Suc n" "set (u # us) \<subseteq> L" by auto
    then show ?thesis unfolding reps_def by blast
  qed
qed

lemma reps_Suc_Suc: "reps L (Suc m) (Suc n) = {u @ v | u v. u \<in> L \<and> v \<in> reps L m n}"
proof (rule set_eqI, rule iffI)
  fix w assume "w \<in> reps L (Suc m) (Suc n)"
  then obtain us where us: "w = concat us" "Suc m \<le> length us" "length us \<le> Suc n" "set us \<subseteq> L"
    by (auto simp: reps_def)
  then obtain u us' where "us = u # us'" by (cases us) auto
  with us have "u \<in> L" "concat us' \<in> reps L m n" "w = u @ concat us'"
    by (auto simp: reps_def)
  then show "w \<in> {u @ v | u v. u \<in> L \<and> v \<in> reps L m n}" by blast
next
  fix w assume "w \<in> {u @ v | u v. u \<in> L \<and> v \<in> reps L m n}"
  then obtain u us where 2: "w = u @ concat us" "u \<in> L" "m \<le> length us" "length us \<le> n" "set us \<subseteq> L"
    by (auto simp: reps_def)
  then have "w = concat (u # us)" "Suc m \<le> length (u # us)" "length (u # us) \<le> Suc n" "set (u # us) \<subseteq> L" by auto
  then show "w \<in> reps L (Suc m) (Suc n)" unfolding reps_def by blast
qed

lemma rx_repeat_step:
  assumes f: "\<And>s. set (f s) = {t. \<exists>u. s = u @ t \<and> u \<in> L}"
    and IH: "\<And>x. x \<in> set (f s) \<Longrightarrow> set (g x) = {t. \<exists>w. x = w @ t \<and> w \<in> M}"
  shows "set (concat (map g (f s))) = {t. \<exists>w. s = w @ t \<and> w \<in> {u @ v | u v. u \<in> L \<and> v \<in> M}}"
proof (rule set_eqI, rule iffI)
  fix t assume "t \<in> set (concat (map g (f s)))"
  then obtain x where x: "x \<in> set (f s)" "t \<in> set (g x)" by auto
  from x(1) obtain u where u: "s = u @ x" "u \<in> L" by (auto simp: f)
  from x obtain w where w: "x = w @ t" "w \<in> M" by (auto simp: IH)
  from u w have "s = (u @ w) @ t" by simp
  with u w show "t \<in> {t. \<exists>w. s = w @ t \<and> w \<in> {u @ v | u v. u \<in> L \<and> v \<in> M}}" by blast
next
  fix t assume "t \<in> {t. \<exists>w. s = w @ t \<and> w \<in> {u @ v | u v. u \<in> L \<and> v \<in> M}}"
  then obtain u v where uv: "s = u @ v @ t" "u \<in> L" "v \<in> M" by auto
  then have x: "v @ t \<in> set (f s)" by (auto simp: f)
  then have "t \<in> set (g (v @ t))" using uv by (auto simp: IH)
  with x show "t \<in> set (concat (map g (f s)))" by auto
qed

lemma rx_repeat_reps:
  "(\<And>s. set (f s) = {t. \<exists>u. s = u @ t \<and> u \<in> L}) \<Longrightarrow>
   set (rx_repeat f m n s) = {t. \<exists>w. s = w @ t \<and> w \<in> reps L m n}"
proof (induction f m n s rule: rx_repeat.induct)
  case (1 f s)
  show ?case by (auto simp: reps_0_0)
next
  case (2 f n s)
  have IH: "\<And>x. x \<in> set (f s) \<Longrightarrow> set (rx_repeat f 0 n x) = {t. \<exists>w. x = w @ t \<and> w \<in> reps L 0 n}"
    using 2 by blast
  have "set (rx_repeat f 0 (Suc n) s) = insert s (set (concat (map (rx_repeat f 0 n) (f s))))"
    by simp
  also have "\<dots> = insert s {t. \<exists>w. s = w @ t \<and> w \<in> {u @ v | u v. u \<in> L \<and> v \<in> reps L 0 n}}"
    using rx_repeat_step [of f L s "rx_repeat f 0 n" "reps L 0 n", OF "2.prems" IH] by simp
  also have "\<dots> = {t. \<exists>w. s = w @ t \<and> w \<in> reps L 0 (Suc n)}"
    unfolding reps_0_Suc by auto
  finally show ?case .
next
  case (3 f m s)
  show ?case by (simp add: reps_Suc_0)
next
  case (4 f m n s)
  have IH: "\<And>x. x \<in> set (f s) \<Longrightarrow> set (rx_repeat f m n x) = {t. \<exists>w. x = w @ t \<and> w \<in> reps L m n}"
    using 4 by blast
  show ?case
    using rx_repeat_step [of f L s "rx_repeat f m n" "reps L m n", OF "4.prems" IH]
    by (simp add: reps_Suc_Suc)
qed

lemma rx_match_lang: "set (rx_match r s) = {t. \<exists>u. s = u @ t \<and> u \<in> lang r}"
proof (induction r arbitrary: s)
  case Digit
  show ?case by (cases s) auto
next
  case (Chr a)
  show ?case by (cases s) auto
next
  case (Seq r1 r2)
  show ?case
    using rx_repeat_step [of "rx_match r1" "lang r1" s "rx_match r2" "lang r2"] Seq
    by simp
next
  case (Repeat m n r)
  show ?case
    using rx_repeat_reps [of "rx_match r" "lang r" m n s] Repeat
    by (simp add: reps_def)
qed

lemma regex_test_lang: "regex_test r s \<longleftrightarrow> s \<in> lang r"
  by (simp add: regex_test_def rx_match_lang)


lemma isDigit_not_dot: "isDigit c \<Longrightarrow> c \<noteq> dot"
  by (auto simp: isDigit_def dot_def)

lemma digit_group_no_dot: "digit_group g \<Longrightarrow> dot \<notin> set g"
  using isDigit_not_dot by (auto simp: digit_group_def list_all_iff)

lemma split_on_last:
  assumes "dropWhile (\<lambda>x. x \<noteq> c) s = []"
  shows "split_on c s = [s]"
  by (subst split_on.simps) (simp only: assms list.case)

lemma split_on_next:
  assumes "dropWhile (\<lambda>x. x \<noteq> c) s = x # rest"
  shows "split_on c s = takeWhile (\<lambda>x. x \<noteq> c) s # split_on c rest"
  by (subst split_on.simps) (simp only: assms list.case)

lemma split_on_no_sep: "c \<notin> set g \<Longrightarrow> split_on c g = [g]"
  by (rule split_on_last) auto

lemma split_on_append: 
  assumes "c \<notin> set g"
  shows "split_on c (g @ c # rest) = g # split_on c rest"
proof -
  from assms have d: "dropWhile (\<lambda>x. x \<noteq> c) (g @ c # rest) = c # rest"
    by (subst dropWhile_append2) auto
  from assms have t: "takeWhile (\<lambda>x. x \<noteq> c) (g @ c # rest) = g"
    by (subst takeWhile_append2) auto
  show ?thesis using split_on_next [OF d] t by simp
qed

lemma split_on_not_Nil: "split_on c s \<noteq> []"
  by (subst split_on.simps) (simp split: list.split)

lemma join_Cons: "join c (p # ps) = (if ps = [] then p else p @ c # join c ps)"
  by (cases ps) auto

lemma join_split_on: "join c (split_on c s) = s"
proof (induction c s rule: split_on.induct)
  case (1 c s)
  show ?case
  proof (cases "dropWhile (\<lambda>x. x \<noteq> c) s")
    case Nil
    then show ?thesis by (simp only: split_on_last join.simps)
  next
    case (Cons x rest)
    then have x: "x = c" using hd_dropWhile [of "\<lambda>x. x \<noteq> c" s] by auto
    have "s = takeWhile (\<lambda>x. x \<noteq> c) s @ dropWhile (\<lambda>x. x \<noteq> c) s" by simp
    then have s: "s = takeWhile (\<lambda>x. x \<noteq> c) s @ c # rest" using Cons x by simp
    have "join c (split_on c s) = takeWhile (\<lambda>x. x \<noteq> c) s @ c # join c (split_on c rest)"
      by (simp add: split_on_next [OF Cons] join_Cons split_on_not_Nil)
    also have "\<dots> = takeWhile (\<lambda>x. x \<noteq> c) s @ c # rest"
      using "1.IH" [OF Cons] by simp
    finally show ?thesis using s by simp
  qed
qed

lemma split_on_pieces: "p \<in> set (split_on c s) \<Longrightarrow> c \<notin> set p"
proof (induction c s arbitrary: p rule: split_on.induct)
  case (1 c s)
  show ?case
  proof (cases "dropWhile (\<lambda>x. x \<noteq> c) s")
    case Nil
    then have "split_on c s = [s]" by (rule split_on_last)
    moreover from Nil have "c \<notin> set s" by (auto simp: dropWhile_eq_Nil_conv)
    ultimately show ?thesis using "1.prems" by simp
  next
    case (Cons x rest)
    with "1.prems" consider "p = takeWhile (\<lambda>x. x \<noteq> c) s" | "p \<in> set (split_on c rest)"
      by (auto simp: split_on_next [OF Cons])
    then show ?thesis
    proof cases
      case 1
      then show ?thesis by (auto dest: set_takeWhileD)
    next
      case 2
      then show ?thesis using "1.IH" [OF Cons] by blast
    qed
  qed
qed


lemma concat_singletons:
  "set us \<subseteq> {[c] | c. P c} \<Longrightarrow> length (concat us) = length us \<and> list_all P (concat us)"
  by (induction us) auto

lemma lang_Repeat_Digit:
  "lang (Repeat m n Digit) = {g. m \<le> length g \<and> length g \<le> n \<and> list_all isDigit g}"
proof (rule set_eqI, rule iffI)
  fix g assume "g \<in> lang (Repeat m n Digit)"
  then obtain us where us: "g = concat us" "m \<le> length us" "length us \<le> n"
    "set us \<subseteq> {[c] | c. isDigit c}" by auto
  from concat_singletons [OF us(4)] us
  show "g \<in> {g. m \<le> length g \<and> length g \<le> n \<and> list_all isDigit g}" by simp
next
  fix g assume "g \<in> {g. m \<le> length g \<and> length g \<le> n \<and> list_all isDigit g}"
  then have g: "m \<le> length g" "length g \<le> n" "list_all isDigit g" by auto
  let ?us = "map (\<lambda>c. [c]) g"
  have "g = concat ?us" by (induction g) auto
  moreover have "set ?us \<subseteq> {[c] | c. isDigit c}" using g(3) by (auto simp: list_all_iff)
  ultimately show "g \<in> lang (Repeat m n Digit)" using g(1,2)
    by (simp only: lang.simps) (intro CollectI exI[of _ ?us], simp)
qed

lemma lang_digit_group: "g \<in> lang (Repeat 1 3 Digit) \<longleftrightarrow> digit_group g"
  by (simp only: lang_Repeat_Digit digit_group_def mem_Collect_eq)

lemma reps_3_3: "w \<in> reps L 3 3 \<longleftrightarrow> (\<exists>a b c. w = a @ b @ c \<and> a \<in> L \<and> b \<in> L \<and> c \<in> L)"
proof -
  have "w \<in> reps L (Suc (Suc (Suc 0))) (Suc (Suc (Suc 0))) \<longleftrightarrow>
        (\<exists>a b c. w = a @ b @ c \<and> a \<in> L \<and> b \<in> L \<and> c \<in> L)"
    by (auto simp: reps_Suc_Suc reps_0_0)
  then show ?thesis by (simp only: numeral_3_eq_3)
qed

lemma lang_Seq_iff: "w \<in> lang (Seq r1 r2) \<longleftrightarrow> (\<exists>u v. w = u @ v \<and> u \<in> lang r1 \<and> v \<in> lang r2)"
  by simp

lemma lang_Repeat_reps: "lang (Repeat m n r) = reps (lang r) m n"
  by (simp add: reps_def)

lemma lang_group_dot:
  "a \<in> lang (Seq (Repeat 1 3 Digit) (Chr dot)) \<longleftrightarrow> (\<exists>g. a = g @ [dot] \<and> digit_group g)"
  by (simp only: lang_Seq_iff lang_digit_group lang.simps(2)) blast

lemma lang_ipv4Pattern:
  "s \<in> lang ipv4Pattern \<longleftrightarrow>
   (\<exists>g1 g2 g3 g4. s = g1 @ dot # g2 @ dot # g3 @ dot # g4 \<and>
      digit_group g1 \<and> digit_group g2 \<and> digit_group g3 \<and> digit_group g4)"
proof
  assume "s \<in> lang ipv4Pattern"
  then obtain w g4 where s: "s = w @ g4"
    and w: "w \<in> reps (lang (Seq (Repeat 1 3 Digit) (Chr dot))) 3 3"
    and g4: "digit_group g4"
    unfolding ipv4Pattern_def lang_Seq_iff lang_digit_group lang_Repeat_reps [of 3 3] by blast
  from w obtain a b c where abc: "w = a @ b @ c"
    and a: "a \<in> lang (Seq (Repeat 1 3 Digit) (Chr dot))"
    and b: "b \<in> lang (Seq (Repeat 1 3 Digit) (Chr dot))"
    and c: "c \<in> lang (Seq (Repeat 1 3 Digit) (Chr dot))"
    unfolding reps_3_3 by blast
  from a obtain g1 where g1: "a = g1 @ [dot]" "digit_group g1" unfolding lang_group_dot by blast
  from b obtain g2 where g2: "b = g2 @ [dot]" "digit_group g2" unfolding lang_group_dot by blast
  from c obtain g3 where g3: "c = g3 @ [dot]" "digit_group g3" unfolding lang_group_dot by blast
  have "s = g1 @ dot # g2 @ dot # g3 @ dot # g4" by (simp add: s abc g1 g2 g3)
  with g1 g2 g3 g4 show "\<exists>g1 g2 g3 g4. s = g1 @ dot # g2 @ dot # g3 @ dot # g4 \<and>
    digit_group g1 \<and> digit_group g2 \<and> digit_group g3 \<and> digit_group g4" by blast
next
  assume "\<exists>g1 g2 g3 g4. s = g1 @ dot # g2 @ dot # g3 @ dot # g4 \<and>
    digit_group g1 \<and> digit_group g2 \<and> digit_group g3 \<and> digit_group g4"
  then obtain g1 g2 g3 g4 where s: "s = g1 @ dot # g2 @ dot # g3 @ dot # g4"
    and g: "digit_group g1" "digit_group g2" "digit_group g3" "digit_group g4" by blast
  have s': "s = ((g1 @ [dot]) @ (g2 @ [dot]) @ (g3 @ [dot])) @ g4" by (simp add: s)
  have "g1 @ [dot] \<in> lang (Seq (Repeat 1 3 Digit) (Chr dot))"
    "g2 @ [dot] \<in> lang (Seq (Repeat 1 3 Digit) (Chr dot))"
    "g3 @ [dot] \<in> lang (Seq (Repeat 1 3 Digit) (Chr dot))"
    unfolding lang_group_dot using g by blast+
  then have "(g1 @ [dot]) @ (g2 @ [dot]) @ (g3 @ [dot])
      \<in> reps (lang (Seq (Repeat 1 3 Digit) (Chr dot))) 3 3"
    unfolding reps_3_3 by blast
  with g(4) show "s \<in> lang ipv4Pattern"
    unfolding ipv4Pattern_def lang_Seq_iff lang_digit_group lang_Repeat_reps [of 3 3] s' by blast
qed

lemma ipv4_shaped_iff:
  "ipv4_shaped s \<longleftrightarrow>
   (\<exists>g1 g2 g3 g4. s = g1 @ dot # g2 @ dot # g3 @ dot # g4 \<and>
      digit_group g1 \<and> digit_group g2 \<and> digit_group g3 \<and> digit_group g4)"
proof
  assume "ipv4_shaped s"
  then have len: "length (split_on dot s) = 4" and all: "list_all digit_group (split_on dot s)"
    by (auto simp: ipv4_shaped_def Let_def)
  from len obtain g1 g2 g3 g4 where gs: "split_on dot s = [g1, g2, g3, g4]"
    by (auto simp: numeral_eq_Suc length_Suc_conv)
  have "join dot (split_on dot s) = s" by (rule join_split_on)
  with gs have "s = g1 @ dot # g2 @ dot # g3 @ dot # g4" by simp
  moreover from all gs have "digit_group g1 \<and> digit_group g2 \<and> digit_group g3 \<and> digit_group g4"
    by simp
  ultimately show "\<exists>g1 g2 g3 g4. s = g1 @ dot # g2 @ dot # g3 @ dot # g4 \<and>
      digit_group g1 \<and> digit_group g2 \<and> digit_group g3 \<and> digit_group g4" by blast
next
  assume "\<exists>g1 g2 g3 g4. s = g1 @ dot # g2 @ dot # g3 @ dot # g4 \<and>
      digit_group g1 \<and> digit_group g2 \<and> digit_group g3 \<and> digit_group g4"
  then obtain g1 g2 g3 g4 where s: "s = g1 @ dot # g2 @ dot # g3 @ dot # g4"
    and g: "digit_group g1" "digit_group g2" "digit_group g3" "digit_group g4" by blast
  from g have "split_on dot s = [g1, g2, g3, g4]"
    unfolding s by (simp add: split_on_append split_on_no_sep digit_group_no_dot)
  with g show "ipv4_shaped s" by (simp add: ipv4_shaped_def)
qed

lemma isIPv4_iff_shaped: "isIPv4 s \<longleftrightarrow> ipv4_shaped s"
  by (simp only: isIPv4_def regex_test_lang lang_ipv4Pattern ipv4_shaped_iff)

section \<open>The address classifier\<close>

text \<open>
  Claim C3. For every string made of exactly four dot-separated groups of one to three
  digits each (digits only, the range 0 to 255 not checked, so that 999.999.999.999
  qualifies), \<^verbatim>\<open>processIPAddress\<close> returns the string as \<^verbatim>\<open>ip\<close> and as
  \<^verbatim>\<open>ipv4\<close>, \<^verbatim>\<open>null\<close> as \<^verbatim>\<open>ipv6\<close>, and 4 as \<^verbatim>\<open>ipVersion\<close>.
\<close>

theorem processIPAddress_ipv4:
  "ipv4_shaped s \<Longrightarrow>
   processIPAddress s = \<lparr>ip = s, ipv4 = Some s, ipv6 = None, ipVersion = 4\<rparr>"
  by (simp add: processIPAddress_def isIPv4_iff_shaped)

theorem processIPAddress_ipv4_witness:
  "ipv4_shaped (js ''999.999.999.999'') \<and>
   processIPAddress (js ''999.999.999.999'') =
     \<lparr>ip = js ''999.999.999.999'', ipv4 = Some (js ''999.999.999.999''), ipv6 = None,
      ipVersion = 4\<rparr>"
proof -
  have shaped: "ipv4_shaped (js ''999.999.999.999'')" by code_simp
  from shaped processIPAddress_ipv4 [OF shaped] show ?thesis by (rule conjI)
qed

text \<open>
  Claim C4. For every string that does not have the IPv4 shape (the empty string, an
  IPv6 literal and the fallback text "no IP" among them), \<^verbatim>\<open>processIPAddress\<close>
  returns the string as \<^verbatim>\<open>ip\<close> and as \<^verbatim>\<open>ipv6\<close>, \<^verbatim>\<open>null\<close> as
  \<^verbatim>\<open>ipv4\<close>, and 6 as \<^verbatim>\<open>ipVersion\<close>.
\<close>

theorem processIPAddress_other:
  "\<not> ipv4_shaped s \<Longrightarrow>
   processIPAddress s = \<lparr>ip = s, ipv4 = None, ipv6 = Some s, ipVersion = 6\<rparr>"
  by (simp add: processIPAddress_def isIPv4_iff_shaped)

theorem processIPAddress_other_witness:
  "\<not> ipv4_shaped (js ''no IP'') \<and>
   processIPAddress (js ''no IP'') =
     \<lparr>ip = js ''no IP'', ipv4 = None, ipv6 = Some (js ''no IP''), ipVersion = 6\<rparr> \<and>
   \<not> ipv4_shaped [] \<and>
   processIPAddress [] = \<lparr>ip = [], ipv4 = None, ipv6 = Some [], ipVersion = 6\<rparr> \<and>
   \<not> ipv4_shaped (js ''2001:0db8:85a3:0000:0000:8a2e:0370:7334'') \<and>
   processIPAddress (js ''2001:0db8:85a3:0000:0000:8a2e:0370:7334'') =
     \<lparr>ip = js ''2001:0db8:85a3:0000:0000:8a2e:0370:7334'', ipv4 = None,
      ipv6 = Some (js ''2001:0db8:85a3:0000:0000:8a2e:0370:7334''), ipVersion = 6\<rparr>"
proof -
  have a: "\<not> ipv4_shaped (js ''no IP'')" by code_simp
  have b: "\<not> ipv4_shaped []" by code_simp
  have c: "\<not> ipv4_shaped (js ''2001:0db8:85a3:0000:0000:8a2e:0370:7334'')" by code_simp
  from a b c processIPAddress_other [OF a] processIPAddress_other [OF b]
    processIPAddress_other [OF c]
  show ?thesis by blast
qed

section \<open>Splitting and trimming\<close>

lemma requestedFields_Nil: "requestedFields [] = []"
  by (simp add: requestedFields_def split_on.simps trim_def)

lemma trim_decomp:
  "p = takeWhile isWhiteSpace p @ trim p
       @ rev (takeWhile isWhiteSpace (rev (dropWhile isWhiteSpace p)))"
proof -
  let ?q = "dropWhile isWhiteSpace p"
  have "rev (takeWhile isWhiteSpace (rev ?q) @ dropWhile isWhiteSpace (rev ?q)) = ?q"
    by (simp only: takeWhile_dropWhile_id rev_rev_ident)
  then have "rev (dropWhile isWhiteSpace (rev ?q)) @ rev (takeWhile isWhiteSpace (rev ?q)) = ?q"
    by (simp only: rev_append)
  then have "?q = trim p @ rev (takeWhile isWhiteSpace (rev ?q))"
    by (simp only: trim_def)
  moreover have "p = takeWhile isWhiteSpace p @ ?q" by simp
  ultimately show ?thesis by simp
qed

lemma trim_ends:
  assumes "trim p \<noteq> []"
  shows "\<not> isWhiteSpace (hd (trim p)) \<and> \<not> isWhiteSpace (last (trim p))"
proof -
  let ?q = "dropWhile isWhiteSpace p"
  let ?r = "dropWhile isWhiteSpace (rev ?q)"
  from assms have r: "?r \<noteq> []" by (simp add: trim_def)
  then have "\<not> isWhiteSpace (hd ?r)" by (rule hd_dropWhile)
  moreover have "last (trim p) = hd ?r" using r by (simp add: trim_def last_rev)
  ultimately have l: "\<not> isWhiteSpace (last (trim p))" by simp
  have q: "?q = trim p @ rev (takeWhile isWhiteSpace (rev ?q))"
    using trim_decomp [of p] by (metis same_append_eq takeWhile_dropWhile_id)
  have "?q \<noteq> []"
  proof
    assume "?q = []"
    then have "trim p = []" by (simp only: trim_def dropWhile.simps rev.simps)
    with assms show False by simp
  qed
  then have "\<not> isWhiteSpace (hd ?q)" by (rule hd_dropWhile)
  moreover from q assms have "hd ?q = hd (trim p)" by (metis hd_append2)
  ultimately show ?thesis using l by simp
qed

section \<open>The steps of the selection loop\<close>

lemma hasOwnProperty_inherited:
  "available (js ''hasOwnProperty'') = None \<Longrightarrow>
   hasOwnProperty available field = Inr (available field \<noteq> None)"
  by (simp add: hasOwnProperty_def)

lemma hasOwnProperty_shadowed:
  "available (js ''hasOwnProperty'') = Some v \<Longrightarrow>
   hasOwnProperty available field = Inl TypeError"
  by (simp add: hasOwnProperty_def)

lemma set_property_plain:
  "k \<noteq> js ''__proto__'' \<Longrightarrow> set_property obj k v = obj\<lparr>own := (own obj)(k \<mapsto> v)\<rparr>"
  by (simp add: set_property_def)

lemma copy_fields_shadowed:
  assumes "available (js ''hasOwnProperty'') = Some v" and "names \<noteq> []"
  shows "copy_fields available names result = Inl TypeError"
proof -
  from assms(2) obtain field rest where "names = field # rest" by (cases names) auto
  then show ?thesis using assms(1) by (simp add: hasOwnProperty_shadowed)
qed

lemma restrict_insert_present:
  "a k = Some v \<Longrightarrow> m(k \<mapsto> v) ++ (a |` S) = m ++ (a |` insert k S)"
  by (rule ext) (auto simp: map_add_def restrict_map_def split: option.splits)

lemma restrict_insert_absent:
  "a k = None \<Longrightarrow> m ++ (a |` S) = m ++ (a |` insert k S)"
  by (rule ext) (auto simp: map_add_def restrict_map_def split: option.splits)

lemma copy_fields_plain:
  assumes "available (js ''hasOwnProperty'') = None"
    and "available (js ''__proto__'') = None \<or> js ''__proto__'' \<notin> set names"
  shows "copy_fields available names result =
         Inr (result\<lparr>own := own result ++ (available |` set names)\<rparr>)"
  using assms(2)
proof (induction names arbitrary: result)
  case Nil
  show ?case by simp
next
  case (Cons field rest)
  then have rest: "available (js ''__proto__'') = None \<or> js ''__proto__'' \<notin> set rest" by auto
  show ?case
  proof (cases "available field")
    case None
    then show ?thesis
      using Cons.IH [OF rest, of result]
        restrict_insert_absent [of available field "own result" "set rest"] assms(1)
      by (simp add: hasOwnProperty_inherited)
  next
    case (Some v)
    with Cons.prems have field: "field \<noteq> js ''__proto__''" by auto
    let ?result = "result\<lparr>own := (own result)(field \<mapsto> v)\<rparr>"
    have "copy_fields available (field # rest) result = copy_fields available rest ?result"
      using Some assms(1)
      by (simp add: hasOwnProperty_inherited set_property_plain [OF field] get_field_def)
    also have "\<dots> = Inr (?result\<lparr>own := own ?result ++ (available |` set rest)\<rparr>)"
      by (rule Cons.IH [OF rest])
    also have "\<dots> = Inr (result\<lparr>own := (own result)(field \<mapsto> v) ++ (available |` set rest)\<rparr>)"
      by simp
    also have "\<dots> = Inr (result\<lparr>own := own result ++ (available |` insert field (set rest))\<rparr>)"
      by (simp only: restrict_insert_present [of available field v "own result" "set rest", OF Some])
    finally show ?thesis by simp
  qed
qed

lemma getRequestedFields_selective:
  assumes "param \<noteq> []"
    and "available (js ''hasOwnProperty'') = None"
    and "available (js ''__proto__'') = None \<or> js ''__proto__'' \<notin> set (requestedFields param)"
  shows "getRequestedFields (Some param) available =
         Inr \<lparr>own = available |` set (requestedFields param), proto = ObjectPrototype\<rparr>"
  using assms copy_fields_plain [of available "requestedFields param"]
  by (simp add: getRequestedFields_def)

lemma getRequestedFields_isl_iff:
  "isl (getRequestedFields fieldsParam available) \<longleftrightarrow>
   (\<exists>param. fieldsParam = Some param \<and> requestedFields param \<noteq> [] \<and>
      available (js ''hasOwnProperty'') \<noteq> None)"
proof (cases fieldsParam)
  case None
  then show ?thesis by (simp add: getRequestedFields_def)
next
  case (Some param)
  show ?thesis
  proof (cases "param = []")
    case True
    with Some show ?thesis by (simp add: getRequestedFields_def requestedFields_Nil)
  next
    case False
    have ok: "\<not> isl (copy_fields available names result)"
      if "available (js ''hasOwnProperty'') = None" for names result
      using that
      by (induction names arbitrary: result) (simp_all add: hasOwnProperty_inherited)
    show ?thesis
    proof (cases "available (js ''hasOwnProperty'')")
      case None
      with Some False ok show ?thesis by (simp add: getRequestedFields_def)
    next
      case (Some v)
      show ?thesis
      proof (cases "requestedFields param")
        case Nil
        with \<open>fieldsParam = Some param\<close> False show ?thesis
          by (simp add: getRequestedFields_def)
      next
        case (Cons field rest)
        with \<open>fieldsParam = Some param\<close> False Some show ?thesis
          by (simp add: getRequestedFields_def hasOwnProperty_shadowed)
      qed
    qed
  qed
qed


section \<open>Default mode\<close>

lemma defaultFields_dom:
  "dom (own (defaultFields available)) =
     {js ''ip'', js ''ipv4'', js ''ipv6'', js ''ipVersion'', js ''country'', js ''region'',
      js ''asn'', js ''asOrganization'', js ''userAgent''}"
  by (simp add: defaultFields_def dom_map_of_conv_image_fst)

lemma defaultFields_card: "card (dom (own (defaultFields available))) = 9"
  by (simp add: defaultFields_dom js_def)

lemma defaultFields_value:
  "k \<in> dom (own (defaultFields available)) \<Longrightarrow>
   own (defaultFields available) k = Some (get_field available k)"
  by (auto simp: defaultFields_def split: if_splits)

text \<open>
  Claim C2. With no \<^verbatim>\<open>fields\<close> parameter, whatever the attribute object holds, the
  result has exactly the nine properties ip, ipv4, ipv6, ipVersion, country, region, asn,
  asOrganization and userAgent, each with the value the attribute object has for it
  (\<^verbatim>\<open>null\<close> included), and with \<^verbatim>\<open>undefined\<close>, the property still being there, when
  the attribute object has none.
\<close>

theorem getRequestedFields_default:
  "\<exists>r. getRequestedFields None available = Inr r \<and>
     dom (own r) =
       {js ''ip'', js ''ipv4'', js ''ipv6'', js ''ipVersion'', js ''country'', js ''region'',
        js ''asn'', js ''asOrganization'', js ''userAgent''} \<and>
     card (dom (own r)) = 9 \<and>
     (\<forall>k \<in> dom (own r).
        own r k = Some (case available k of None \<Rightarrow> JSUndefined | Some v \<Rightarrow> v))"
proof (intro exI conjI)
  show "getRequestedFields None available = Inr (defaultFields available)"
    by (simp add: getRequestedFields_def)
  show "dom (own (defaultFields available)) =
       {js ''ip'', js ''ipv4'', js ''ipv6'', js ''ipVersion'', js ''country'', js ''region'',
        js ''asn'', js ''asOrganization'', js ''userAgent''}"
    by (rule defaultFields_dom)
  show "card (dom (own (defaultFields available))) = 9"
    by (rule defaultFields_card)
  show "\<forall>k \<in> dom (own (defaultFields available)).
        own (defaultFields available) k =
          Some (case available k of None \<Rightarrow> JSUndefined | Some v \<Rightarrow> v)"
    using defaultFields_value [of _ available] by (simp add: get_field_def)
qed

theorem getRequestedFields_default_witness:
  "\<exists>r. getRequestedFields None
          [js ''ip'' \<mapsto> JSString (js ''203.0.113.1''), js ''ipv6'' \<mapsto> JSNull,
           js ''city'' \<mapsto> JSString (js ''Paris'')] = Inr r \<and>
     own r (js ''ip'') = Some (JSString (js ''203.0.113.1'')) \<and>
     own r (js ''ipv6'') = Some JSNull \<and>
     own r (js ''country'') = Some JSUndefined \<and>
     own r (js ''city'') = None"
proof -
  let ?a = "[js ''ip'' \<mapsto> JSString (js ''203.0.113.1''), js ''ipv6'' \<mapsto> JSNull,
             js ''city'' \<mapsto> JSString (js ''Paris'')]"
  from getRequestedFields_default [of ?a] obtain r where
    r: "getRequestedFields None ?a = Inr r"
    and d: "dom (own r) =
       {js ''ip'', js ''ipv4'', js ''ipv6'', js ''ipVersion'', js ''country'', js ''region'',
        js ''asn'', js ''asOrganization'', js ''userAgent''}"
    and v: "\<forall>k \<in> dom (own r).
        own r k = Some (case ?a k of None \<Rightarrow> JSUndefined | Some v \<Rightarrow> v)"
    by blast
  have "js ''ip'' \<in> dom (own r)" "js ''ipv6'' \<in> dom (own r)" "js ''country'' \<in> dom (own r)"
    unfolding d by simp_all
  with v have "own r (js ''ip'') = Some (JSString (js ''203.0.113.1''))"
    "own r (js ''ipv6'') = Some JSNull" "own r (js ''country'') = Some JSUndefined"
    by (simp_all add: js_def)
  moreover have "js ''city'' \<notin> dom (own r)" unfolding d by (simp add: js_def)
  then have "own r (js ''city'') = None" by blast
  ultimately show ?thesis using r by blast
qed

text \<open>
  Claim C5. A \<^verbatim>\<open>fields\<close> parameter that is present and empty gives the same result
  as no parameter: the default fields.
\<close>

theorem getRequestedFields_empty_param:
  "getRequestedFields (Some (js '''')) available = getRequestedFields None available"
  by (simp add: getRequestedFields_def js_def)

section \<open>Parsing the field selection\<close>

text \<open>
  Claim C6. The parse of the \<^verbatim>\<open>fields\<close> parameter splits it at the commas (the
  pieces are free of commas and give the parameter back when joined by commas), trims
  the white space around each piece (a piece is white space, then its trimmed form, then
  white space, and a non-empty trimmed form neither starts nor ends with white space),
  and drops the pieces that are empty after trimming, keeping the others in their order
  and with their repetitions; the input "ip, city ,,timezone" gives ip, city, timezone.
\<close>

theorem requestedFields_parse:
  "requestedFields (js ''ip, city ,,timezone'') = [js ''ip'', js ''city'', js ''timezone''] \<and>
   join comma (split_on comma fieldsParam) = fieldsParam \<and>
   (\<forall>piece \<in> set (split_on comma fieldsParam). comma \<notin> set piece) \<and>
   (\<forall>piece. \<exists>before after.
      piece = before @ trim piece @ after \<and>
      list_all isWhiteSpace before \<and> list_all isWhiteSpace after \<and>
      (trim piece \<noteq> [] \<longrightarrow>
         \<not> isWhiteSpace (hd (trim piece)) \<and> \<not> isWhiteSpace (last (trim piece)))) \<and>
   requestedFields fieldsParam =
     map trim (filter (\<lambda>piece. trim piece \<noteq> []) (split_on comma fieldsParam))"
proof (intro conjI allI)
  show "requestedFields (js ''ip, city ,,timezone'') = [js ''ip'', js ''city'', js ''timezone'']"
    by code_simp
  show "join comma (split_on comma fieldsParam) = fieldsParam"
    by (rule join_split_on)
  show "\<forall>piece \<in> set (split_on comma fieldsParam). comma \<notin> set piece"
    by (intro ballI) (rule split_on_pieces)
  show "requestedFields fieldsParam =
     map trim (filter (\<lambda>piece. trim piece \<noteq> []) (split_on comma fieldsParam))"
    by (simp add: requestedFields_def filter_map comp_def)
next
  fix piece
  let ?before = "takeWhile isWhiteSpace piece"
  let ?after = "rev (takeWhile isWhiteSpace (rev (dropWhile isWhiteSpace piece)))"
  have "piece = ?before @ trim piece @ ?after" by (rule trim_decomp)
  moreover have "list_all isWhiteSpace ?before" "list_all isWhiteSpace ?after"
    by (auto simp: list_all_iff dest: set_takeWhileD)
  moreover have "trim piece \<noteq> [] \<longrightarrow>
         \<not> isWhiteSpace (hd (trim piece)) \<and> \<not> isWhiteSpace (last (trim piece))"
    using trim_ends by blast
  ultimately show "\<exists>before after.
      piece = before @ trim piece @ after \<and>
      list_all isWhiteSpace before \<and> list_all isWhiteSpace after \<and>
      (trim piece \<noteq> [] \<longrightarrow>
         \<not> isWhiteSpace (hd (trim piece)) \<and> \<not> isWhiteSpace (last (trim piece)))"
    by blast
qed

theorem requestedFields_parse_witness:
  "requestedFields (js ''ip, city ,,timezone'') = [js ''ip'', js ''city'', js ''timezone''] \<and>
   requestedFields (js '' asn ,ip,,asn,  '') = [js ''asn'', js ''ip'', js ''asn''] \<and>
   join comma (split_on comma (js '' asn ,ip,,asn,  '')) = js '' asn ,ip,,asn,  '' \<and>
   requestedFields (js '' asn ,ip,,asn,  '') =
     map trim (filter (\<lambda>piece. trim piece \<noteq> []) (split_on comma (js '' asn ,ip,,asn,  '')))"
proof -
  have "requestedFields (js '' asn ,ip,,asn,  '') = [js ''asn'', js ''ip'', js ''asn'']"
    by code_simp
  with requestedFields_parse [of "js '' asn ,ip,,asn,  ''"] show ?thesis by blast
qed


section \<open>The attribute object of the root handler\<close>

text \<open>
  Claim C10, as stated: in the merged attribute object a property of the platform's
  geolocation object replaces the classifier's property of the same name, and
  \<^verbatim>\<open>userAgent\<close> always holds the value of the request's user-agent header, or
  \<^verbatim>\<open>null\<close> when the header is missing. The second part fails for a header that is
  present and empty: \<^verbatim>\<open>c.req.header('user-agent') || null\<close> is \<^verbatim>\<open>null\<close> then, not
  the empty header value.
\<close>

theorem availableData_empty_userAgent_counterexample:
  "availableData None None (Some (js '''')) (js ''userAgent'') = Some JSNull \<and>
   availableData None None (Some (js '''')) (js ''userAgent'') \<noteq> Some (JSString (js ''''))"
  by (simp add: availableData_def js_def)

text \<open>
  Claim C10, amended: in the merged attribute object a property of the platform's
  geolocation object, under any name but \<^verbatim>\<open>userAgent\<close>, is there with the platform's
  value, replacing the classifier's property of the same name; and \<^verbatim>\<open>userAgent\<close>
  holds the value of the request's user-agent header when the header is present and not
  empty, and \<^verbatim>\<open>null\<close> when it is missing or empty, whatever the platform supplied
  under that name.
\<close>

theorem availableData_merge:
  "(\<forall>k v. k \<noteq> js ''userAgent'' \<longrightarrow> cfData k = Some v \<longrightarrow>
       availableData ipHeader (Some cfData) userAgentHeader k = Some v) \<and>
   availableData ipHeader cf userAgentHeader (js ''userAgent'') =
     Some (case userAgentHeader of
             None \<Rightarrow> JSNull
           | Some h \<Rightarrow> if h = [] then JSNull else JSString h)"
  by (simp add: availableData_def Let_def map_add_def)

theorem availableData_merge_witness:
  "availableData (Some (js ''203.0.113.1''))
     (Some [js ''ip'' \<mapsto> JSString (js ''198.51.100.7''), js ''country'' \<mapsto> JSString (js ''US''),
            js ''userAgent'' \<mapsto> JSString (js ''platform'')])
     (Some (js ''Mozilla/5.0'')) (js ''ip'') = Some (JSString (js ''198.51.100.7'')) \<and>
   availableData (Some (js ''203.0.113.1''))
     (Some [js ''ip'' \<mapsto> JSString (js ''198.51.100.7''), js ''country'' \<mapsto> JSString (js ''US''),
            js ''userAgent'' \<mapsto> JSString (js ''platform'')])
     (Some (js ''Mozilla/5.0'')) (js ''userAgent'') = Some (JSString (js ''Mozilla/5.0'')) \<and>
   availableData (Some (js ''203.0.113.1''))
     (Some [js ''ip'' \<mapsto> JSString (js ''198.51.100.7''), js ''country'' \<mapsto> JSString (js ''US''),
            js ''userAgent'' \<mapsto> JSString (js ''platform'')])
     None (js ''userAgent'') = Some JSNull"
proof -
  let ?cf = "[js ''ip'' \<mapsto> JSString (js ''198.51.100.7''), js ''country'' \<mapsto> JSString (js ''US''),
              js ''userAgent'' \<mapsto> JSString (js ''platform'')]"
  have k: "js ''ip'' \<noteq> js ''userAgent''" by (simp add: js_def)
  have v: "?cf (js ''ip'') = Some (JSString (js ''198.51.100.7''))" by (simp add: js_def)
  have ua: "js ''Mozilla/5.0'' \<noteq> []" by (simp add: js_def)
  from availableData_merge [of ?cf "Some (js ''203.0.113.1'')" "Some (js ''Mozilla/5.0'')" "Some ?cf"]
    availableData_merge [of ?cf "Some (js ''203.0.113.1'')" None "Some ?cf"] k v ua
  show ?thesis by simp
qed

section \<open>Selective mode\<close>

text \<open>
  What the selective branch does for an attribute object that has no own property
  \<^verbatim>\<open>hasOwnProperty\<close>, when it has no own property \<^verbatim>\<open>__proto__\<close> either or that
  name is not requested, is \<open>getRequestedFields_selective\<close>: the result holds
  exactly the requested names that are own properties of the attribute object, with
  their values, and nothing is raised. The next three lemmas read this as the claims C1,
  C7 and C8 put it: a requested name is a key of the result exactly when the attribute
  object has it, the order of the names and their repetitions play no part, and the names
  of the field catalog, all requested at once, come back when the attribute object holds
  them all.
\<close>

lemma getRequestedFields_requested_name:
  assumes "param \<noteq> []" and "field \<in> set (requestedFields param)"
    and "available (js ''hasOwnProperty'') = None"
    and "available (js ''__proto__'') = None"
  shows "\<exists>r. getRequestedFields (Some param) available = Inr r \<and>
           own r field = available field \<and> dom (own r) \<subseteq> set (requestedFields param)"
  using assms getRequestedFields_selective [of param available]
  by (auto simp: restrict_map_def split: if_splits)

lemma getRequestedFields_same_names:
  assumes "param \<noteq> []" and "param' \<noteq> []"
    and "set (requestedFields param) = set (requestedFields param')"
    and "available (js ''hasOwnProperty'') = None"
    and "available (js ''__proto__'') = None"
  shows "getRequestedFields (Some param) available = getRequestedFields (Some param') available"
  using assms getRequestedFields_selective [of param available]
    getRequestedFields_selective [of param' available]
  by simp

lemma requestedFields_catalog: "requestedFields (join comma availableFields) = availableFields"
  by code_simp

lemma getRequestedFields_catalog:
  assumes "available (js ''hasOwnProperty'') = None"
  shows "getRequestedFields (Some (join comma availableFields)) available =
         Inr \<lparr>own = available |` set availableFields, proto = ObjectPrototype\<rparr>"
proof -
  have "join comma availableFields \<noteq> []" by code_simp
  moreover have "js ''__proto__'' \<notin> set availableFields" by code_simp
  ultimately show ?thesis
    using getRequestedFields_selective [of "join comma availableFields" available] assms
    by (simp add: requestedFields_catalog)
qed

text \<open>
  Claim C1. In selective mode, for every requested name and every attribute object, the
  result has the name as a key exactly when the attribute object has it as an own
  property, with the same value, and a requested name the attribute object lacks is
  dropped without an error. The code breaks this in two places. An attribute object with
  an own property \<^verbatim>\<open>hasOwnProperty\<close> makes the call
  \<^verbatim>\<open>availableData.hasOwnProperty(field)\<close> raise a \<^verbatim>\<open>TypeError\<close>, so that no
  result is returned at all; and the requested name \<^verbatim>\<open>__proto__\<close>, an own property
  of the attribute object, is not a key of the result, because the assignment
  \<^verbatim>\<open>result[field] = ...\<close> runs the setter of \<^verbatim>\<open>Object.prototype\<close>.
\<close>

theorem selective_mode_breaks_on_prototype_names:
  "getRequestedFields (Some (js ''ip,bogusField''))
     [js ''ip'' \<mapsto> JSString (js ''203.0.113.1''),
      js ''hasOwnProperty'' \<mapsto> JSString (js ''x'')] = Inl TypeError \<and>
   [js ''__proto__'' \<mapsto> JSString (js ''x'')] (js ''__proto__'') = Some (JSString (js ''x'')) \<and>
   getRequestedFields (Some (js ''__proto__'')) [js ''__proto__'' \<mapsto> JSString (js ''x'')] =
     Inr \<lparr>own = Map.empty, proto = ObjectPrototype\<rparr>"
proof (intro conjI)
  have "requestedFields (js ''ip,bogusField'') = [js ''ip'', js ''bogusField'']" by code_simp
  moreover have "js ''ip,bogusField'' \<noteq> []" by (simp add: js_def)
  moreover have "js ''hasOwnProperty'' \<noteq> js ''ip''" by (simp add: js_def)
  ultimately show "getRequestedFields (Some (js ''ip,bogusField''))
     [js ''ip'' \<mapsto> JSString (js ''203.0.113.1''),
      js ''hasOwnProperty'' \<mapsto> JSString (js ''x'')] = Inl TypeError"
    by (simp add: getRequestedFields_def hasOwnProperty_def)
  show "[js ''__proto__'' \<mapsto> JSString (js ''x'')] (js ''__proto__'') = Some (JSString (js ''x''))"
    by simp
  have "requestedFields (js ''__proto__'') = [js ''__proto__'']" by code_simp
  moreover have "js ''__proto__'' \<noteq> []" "js ''hasOwnProperty'' \<noteq> js ''__proto__''"
    by (simp_all add: js_def)
  ultimately show "getRequestedFields (Some (js ''__proto__''))
      [js ''__proto__'' \<mapsto> JSString (js ''x'')] = Inr \<lparr>own = Map.empty, proto = ObjectPrototype\<rparr>"
    by (simp add: getRequestedFields_def hasOwnProperty_def set_property_def get_field_def)
qed

text \<open>
  Claim C7. For every attribute object, two \<^verbatim>\<open>fields\<close> parameters whose parsed names
  are the same set give results with the same keys and values. The code breaks this for
  the name \<^verbatim>\<open>__proto__\<close> held with the value \<^verbatim>\<open>null\<close>: requested once, the
  assignment runs the setter of \<^verbatim>\<open>Object.prototype\<close>, which removes the prototype
  of the result and adds no key; requested twice, the second assignment finds no setter
  any more and adds the key.
\<close>

theorem repeated_proto_name_changes_result:
  "set (requestedFields (js ''__proto__'')) = set (requestedFields (js ''__proto__,__proto__'')) \<and>
   getRequestedFields (Some (js ''__proto__'')) [js ''__proto__'' \<mapsto> JSNull] =
     Inr \<lparr>own = Map.empty, proto = NullPrototype\<rparr> \<and>
   getRequestedFields (Some (js ''__proto__,__proto__'')) [js ''__proto__'' \<mapsto> JSNull] =
     Inr \<lparr>own = [js ''__proto__'' \<mapsto> JSNull], proto = NullPrototype\<rparr>"
proof -
  have once: "requestedFields (js ''__proto__'') = [js ''__proto__'']" by code_simp
  have twice: "requestedFields (js ''__proto__,__proto__'') = [js ''__proto__'', js ''__proto__'']"
    by code_simp
  have ne: "js ''__proto__'' \<noteq> []" "js ''__proto__,__proto__'' \<noteq> []"
    "js ''hasOwnProperty'' \<noteq> js ''__proto__''"
    by (simp_all add: js_def)
  show ?thesis
    by (simp add: once twice ne getRequestedFields_def hasOwnProperty_def set_property_def
        get_field_def)
qed

text \<open>
  Claim C8. For every attribute object that holds all the names of the field catalog,
  requesting them all returns them all with their values. The code breaks this for an
  attribute object that holds, besides the names of the catalog, an own property
  \<^verbatim>\<open>hasOwnProperty\<close>: the call \<^verbatim>\<open>availableData.hasOwnProperty(field)\<close> raises.
\<close>

theorem catalog_round_trip_raises_when_shadowed:
  "list_all
     (\<lambda>name. ((\<lambda>k. if k \<in> set availableFields then Some (JSString k) else None)
                 (js ''hasOwnProperty'' \<mapsto> JSString (js ''x''))) name = Some (JSString name))
     availableFields \<and>
   requestedFields (join comma availableFields) = availableFields \<and>
   getRequestedFields (Some (join comma availableFields))
     ((\<lambda>k. if k \<in> set availableFields then Some (JSString k) else None)
        (js ''hasOwnProperty'' \<mapsto> JSString (js ''x''))) = Inl TypeError"
proof (intro conjI)
  show "list_all
     (\<lambda>name. ((\<lambda>k. if k \<in> set availableFields then Some (JSString k) else None)
                 (js ''hasOwnProperty'' \<mapsto> JSString (js ''x''))) name = Some (JSString name))
     availableFields"
    by code_simp
  show "requestedFields (join comma availableFields) = availableFields"
    by (rule requestedFields_catalog)
  have "join comma availableFields \<noteq> []" by code_simp
  moreover have "availableFields \<noteq> []" by (simp add: availableFields_def)
  ultimately show "getRequestedFields (Some (join comma availableFields))
     ((\<lambda>k. if k \<in> set availableFields then Some (JSString k) else None)
        (js ''hasOwnProperty'' \<mapsto> JSString (js ''x''))) = Inl TypeError"
    using copy_fields_shadowed
      [of "(\<lambda>k. if k \<in> set availableFields then Some (JSString k) else None)
             (js ''hasOwnProperty'' \<mapsto> JSString (js ''x''))" "JSString (js ''x'')" availableFields]
    by (simp add: getRequestedFields_def requestedFields_catalog)
qed

text \<open>
  Claim C9. \<^verbatim>\<open>processIPAddress\<close> and \<^verbatim>\<open>getRequestedFields\<close> are total and
  deterministic: defined on every input, never raising, the same result for the same
  input. \<^verbatim>\<open>getRequestedFields\<close> raises a \<^verbatim>\<open>TypeError\<close> exactly when at least one
  name is requested and the attribute object has an own property \<^verbatim>\<open>hasOwnProperty\<close>
  (\<open>getRequestedFields_isl_iff\<close>); the smallest such input is evaluated here.
\<close>

theorem getRequestedFields_raises_TypeError:
  "getRequestedFields (Some (js ''ip'')) [js ''hasOwnProperty'' \<mapsto> JSString (js ''x'')] =
     Inl TypeError"
proof -
  have "requestedFields (js ''ip'') = [js ''ip'']" by code_simp
  moreover have "js ''ip'' \<noteq> []" by (simp add: js_def)
  ultimately show ?thesis
    by (simp add: getRequestedFields_def hasOwnProperty_def)
qed


end
